theory Spec2Isabelle
  imports Main
begin

section \<open>The profanity lint tool: data model\<close>

text \<open>
  The tool walks a directory tree; for each file it resolves the rules of the file's
  directory (\<open>getRules\<close>, \<open>discoverRules\<close>, \<open>localRules\<close>) and applies them in
  order to the file's contents. Strings are Go strings: byte sequences, here \<open>char list\<close>.
\<close>

subsection \<open>Errors and panics\<close>

text \<open>
  A Go \<open>error\<close> value. \<open>ErrBadPattern\<close> and \<open>SkipDir\<close> are the two values of
  \<open>path/filepath\<close>; \<open>Errorf m\<close> is what \<open>fmt.Errorf\<close> builds, with its message;
  \<open>ExtError m\<close> is an error handed in from outside the tool (the walker, a file read,
  the YAML decoder). A Go pair \<open>(v, err)\<close> is a value of \<open>error + 'a\<close>, and a
  result of type \<open>error\<close> alone is an \<open>error option\<close> (\<open>None\<close> is \<open>nil\<close>).
\<close>

datatype error = ErrBadPattern | SkipDir | Errorf string | ExtError string

text \<open>The text of an error, as \<open>fmt.Sprintf("%+v", err)\<close> prints it.\<close>

fun errorString :: "error \<Rightarrow> string" where
  "errorString ErrBadPattern = ''syntax error in pattern''"
| "errorString SkipDir = ''skip this directory''"
| "errorString (Errorf m) = m"
| "errorString (ExtError m) = m"

text \<open>\<open>regexp.MustCompile\<close> panics on an expression that does not compile.\<close>

datatype panic = MustCompilePanic string

subsection \<open>Rules\<close>

record Rule =
  File :: string
  Message :: string
  Contains :: string
  NotContains :: string
  Regex :: string
  Include :: string
  Exclude :: string

subsection \<open>What the tool takes from outside\<close>

text \<open>
  The command line flags and the library calls whose results depend on the file system or
  on a library's grammar: \<open>filepath.Match\<close>, \<open>filepath.Base\<close>, \<open>filepath.Dir\<close>,
  \<open>filepath.Join\<close>, \<open>os.Stat\<close> (true when it returns no error),
  \<open>ioutil.ReadFile\<close>, \<open>yaml.Unmarshal\<close> into a slice of rules, and
  \<open>regexp.MustCompile\<close> followed by \<open>Match\<close> (\<open>None\<close> when the expression does not
  compile). Every theorem below holds for all of them. The \<open>-v\<close> flag only prints and
  is left out.
\<close>

record env =
  rulesFile :: string
  include_flag :: string
  exclude_flag :: string
  Match :: "string \<Rightarrow> string \<Rightarrow> error + bool"
  Base :: "string \<Rightarrow> string"
  Dir :: "string \<Rightarrow> string"
  Join :: "string \<Rightarrow> string \<Rightarrow> string"
  Stat :: "string \<Rightarrow> bool"
  ReadFile :: "string \<Rightarrow> error + string"
  Unmarshal :: "string \<Rightarrow> error + Rule list"
  MustCompile :: "string \<Rightarrow> (string \<Rightarrow> bool) option"

definition DefaultProfanityFile :: string where
  "DefaultProfanityFile = ''PROFANITY''"

subsection \<open>The functions of package \<open>strings\<close> the tool calls\<close>

definition strings_HasPrefix :: "string \<Rightarrow> string \<Rightarrow> bool" where
  "strings_HasPrefix s p = (take (length p) s = p)"

definition strings_HasSuffix :: "string \<Rightarrow> string \<Rightarrow> bool" where
  "strings_HasSuffix s p = (length p \<le> length s \<and> drop (length s - length p) s = p)"

fun strings_Contains :: "string \<Rightarrow> string \<Rightarrow> bool" where
  "strings_Contains [] sub = (sub = [])"
| "strings_Contains (c # cs) sub = (strings_HasPrefix (c # cs) sub \<or> strings_Contains cs sub)"

text \<open>\<open>strings.Split\<close> on a one-byte separator: \<open>n\<close> separators give \<open>n + 1\<close> parts.\<close>

fun strings_Split :: "string \<Rightarrow> char \<Rightarrow> string list" where
  "strings_Split [] sep = [[]]"
| "strings_Split (c # cs) sep =
     (if c = sep then [] # strings_Split cs sep
      else (case strings_Split cs sep of
              [] \<Rightarrow> [[c]]
            | part # parts \<Rightarrow> (c # part) # parts))"

text \<open>
  \<open>strings.TrimSpace\<close> removes the white space of Unicode, as \<open>unicode.IsSpace\<close>
  has it, from both ends. A string is a sequence of bytes, so the white space runes are
  given by their UTF-8 encodings: tab, line feed, vertical tab, form feed, carriage return
  and space, U+0085, U+00A0, U+1680, U+2000 to U+200A, U+2028, U+2029, U+202F, U+205F and
  U+3000. A rune is read from the front with \<open>utf8.DecodeRuneInString\<close> and from the
  back with \<open>utf8.DecodeLastRuneInString\<close>: the string starts, or ends, with one of
  these encodings (bytes that are no valid encoding are the rune U+FFFD, no white space).
\<close>

definition spaceRunes :: "string list" where
  "spaceRunes =
     [[CHR 0x09], [CHR 0x0A], [CHR 0x0B], [CHR 0x0C], [CHR 0x0D], [CHR 0x20],
      [CHR 0xC2, CHR 0x85], [CHR 0xC2, CHR 0xA0], [CHR 0xE1, CHR 0x9A, CHR 0x80],
      [CHR 0xE2, CHR 0x80, CHR 0x80], [CHR 0xE2, CHR 0x80, CHR 0x81], [CHR 0xE2, CHR 0x80, CHR 0x82],
      [CHR 0xE2, CHR 0x80, CHR 0x83], [CHR 0xE2, CHR 0x80, CHR 0x84], [CHR 0xE2, CHR 0x80, CHR 0x85],
      [CHR 0xE2, CHR 0x80, CHR 0x86], [CHR 0xE2, CHR 0x80, CHR 0x87], [CHR 0xE2, CHR 0x80, CHR 0x88],
      [CHR 0xE2, CHR 0x80, CHR 0x89], [CHR 0xE2, CHR 0x80, CHR 0x8A], [CHR 0xE2, CHR 0x80, CHR 0xA8],
      [CHR 0xE2, CHR 0x80, CHR 0xA9], [CHR 0xE2, CHR 0x80, CHR 0xAF], [CHR 0xE2, CHR 0x81, CHR 0x9F],
      [CHR 0xE3, CHR 0x80, CHR 0x80]]"

text \<open>\<open>strings.TrimLeftFunc\<close> and \<open>strings.TrimRightFunc\<close> with \<open>unicode.IsSpace\<close>.\<close>

function TrimLeftSpace :: "string \<Rightarrow> string" where
  "TrimLeftSpace s =
     (case find (strings_HasPrefix s) spaceRunes of
        None \<Rightarrow> s
      | Some rune \<Rightarrow> TrimLeftSpace (drop (length rune) s))"
  by pat_completeness auto
termination
proof (relation "measure length")
  show "wf (measure length)" by simp
next
  fix s rune
  assume "find (strings_HasPrefix s) spaceRunes = Some rune"
  then have p: "strings_HasPrefix s rune" and m: "rune \<in> set spaceRunes"
    by (auto simp: find_Some_iff)
  from m have "rune \<noteq> []" by (auto simp: spaceRunes_def)
  with p have "s \<noteq> []" by (auto simp: strings_HasPrefix_def)
  with \<open>rune \<noteq> []\<close> show "(drop (length rune) s, s) \<in> measure length" by simp
qed

function TrimRightSpace :: "string \<Rightarrow> string" where
  "TrimRightSpace s =
     (case find (strings_HasSuffix s) spaceRunes of
        None \<Rightarrow> s
      | Some rune \<Rightarrow> TrimRightSpace (take (length s - length rune) s))"
  by pat_completeness auto
termination
proof (relation "measure length")
  show "wf (measure length)" by simp
next
  fix s rune
  assume "find (strings_HasSuffix s) spaceRunes = Some rune"
  then have p: "strings_HasSuffix s rune" and m: "rune \<in> set spaceRunes"
    by (auto simp: find_Some_iff)
  from m have "rune \<noteq> []" by (auto simp: spaceRunes_def)
  with p have "s \<noteq> []" by (auto simp: strings_HasSuffix_def)
  with \<open>rune \<noteq> []\<close> show "(take (length s - length rune) s, s) \<in> measure length" by simp
qed

declare TrimLeftSpace.simps [simp del]

declare TrimRightSpace.simps [simp del]

definition strings_TrimSpace :: "string \<Rightarrow> string" where
  "strings_TrimSpace s = TrimRightSpace (TrimLeftSpace s)"

section \<open>The glob filter\<close>

text \<open>
  \<open>globAnyMatch\<close>: the loop over the comma separated parts. Each part is tried on the
  file's path, then on its base name; an error of \<open>filepath.Match\<close> is returned at once.
\<close>

fun globAnyMatchParts :: "env \<Rightarrow> string list \<Rightarrow> string \<Rightarrow> error + bool" where
  "globAnyMatchParts E [] file = Inr False"
| "globAnyMatchParts E (part # parts) file =
     (case Match E (strings_TrimSpace part) file of
        Inl err \<Rightarrow> Inl err
      | Inr matches \<Rightarrow>
          if matches then Inr True
          else (case Match E (strings_TrimSpace part) (Base E file) of
                  Inl err \<Rightarrow> Inl err
                | Inr matches \<Rightarrow>
                    if matches then Inr True else globAnyMatchParts E parts file))"

definition globAnyMatch :: "env \<Rightarrow> string \<Rightarrow> string \<Rightarrow> error + bool" where
  "globAnyMatch E filter_spec file = globAnyMatchParts E (strings_Split filter_spec CHR '','') file"

section \<open>Rules of a directory\<close>

text \<open>
  The two maps of \<open>main\<close>, shared by every call, and the list of the directories
  \<open>localRules\<close> has been called with, oldest first (the map values are Go slices; every
  slice stored in \<open>packageRules\<close> is made by \<open>deserializeRules\<close> with its capacity
  equal to its length, so \<open>append(inheritedRules, rules...)\<close> never writes into a stored
  slice and is list concatenation).
\<close>

record state =
  realizedRules :: "string \<rightharpoonup> Rule list"
  packageRules :: "string \<rightharpoonup> Rule list"
  loaderCalls :: "string list"

definition initState :: state where
  "initState = \<lparr>realizedRules = Map.empty, packageRules = Map.empty, loaderCalls = []\<rparr>"

definition deserializeRules :: "env \<Rightarrow> string \<Rightarrow> error + Rule list" where
  "deserializeRules E path =
     (case ReadFile E path of
        Inl err \<Rightarrow> Inl err
      | Inr contents \<Rightarrow>
          (case Unmarshal E contents of
             Inl err \<Rightarrow> Inl err
           | Inr fileRules \<Rightarrow> Inr (map (\<lambda>fileRule. fileRule\<lparr>File := path\<rparr>) fileRules)))"

definition localRules :: "env \<Rightarrow> state \<Rightarrow> string \<Rightarrow> state \<times> (error + Rule list)" where
  "localRules E s path =
     (let s0 = s\<lparr>loaderCalls := loaderCalls s @ [path]\<rparr>;
          profanityPath = Join E path (rulesFile E)
      in if \<not> Stat E profanityPath then (s0, Inr [])
         else (case deserializeRules E profanityPath of
                 Inl err \<Rightarrow> (s0, Inl err)
               | Inr rules \<Rightarrow> (s0\<lparr>packageRules := (packageRules s0)(path \<mapsto> rules)\<rparr>, Inr rules)))"

text \<open>
  The \<open>range\<close> loop of \<open>discoverRules\<close> over \<open>packageRules\<close>. Go leaves the order of
  a map's keys open, so the keys come as a list \<open>keys\<close>, in the order of this run of
  the loop (a key of the list that the map does not hold is passed over).
\<close>

fun inheritLoop :: "(string \<rightharpoonup> Rule list) \<Rightarrow> string \<Rightarrow> string list \<Rightarrow> Rule list \<Rightarrow> Rule list" where
  "inheritLoop pk path [] rules = rules"
| "inheritLoop pk path (key # keys) rules =
     (case pk key of
        None \<Rightarrow> inheritLoop pk path keys rules
      | Some inheritedRules \<Rightarrow>
          if strings_HasPrefix path key \<and> key \<noteq> path
          then inheritLoop pk path keys (inheritedRules @ rules)
          else inheritLoop pk path keys rules)"

definition discoverRules :: "env \<Rightarrow> string list \<Rightarrow> state \<Rightarrow> string \<Rightarrow> state \<times> (error + Rule list)" where
  "discoverRules E keys s path =
     (case localRules E s path of
        (s1, Inl err) \<Rightarrow> (s1, Inl err)
      | (s1, Inr rules) \<Rightarrow>
          (let rules1 = inheritLoop (packageRules s1) path keys rules;
               rules2 = (case packageRules s1 ''.'' of
                           Some rootRules \<Rightarrow> if path \<noteq> ''.'' then rootRules @ rules1 else rules1
                         | None \<Rightarrow> rules1)
           in (s1, Inr rules2)))"

definition getRules :: "env \<Rightarrow> string list \<Rightarrow> state \<Rightarrow> string \<Rightarrow> state \<times> (error + Rule list)" where
  "getRules E keys s path =
     (case realizedRules s path of
        Some rules \<Rightarrow> (s, Inr rules)
      | None \<Rightarrow>
          (case discoverRules E keys s path of
             (s1, Inl err) \<Rightarrow> (s1, Inl err)
           | (s1, Inr rules) \<Rightarrow> (s1\<lparr>realizedRules := (realizedRules s1)(path \<mapsto> rules)\<rparr>, Inr rules)))"

section \<open>Applying a rule\<close>

definition ContainsRule :: "string \<Rightarrow> string \<Rightarrow> error option" where
  \<open>ContainsRule v contents =
     (if strings_Contains contents v then Some (Errorf (''contains: "'' @ v @ ''"'')) else None)\<close>

definition NotContainsRule :: "string \<Rightarrow> string \<Rightarrow> error option" where
  \<open>NotContainsRule v contents =
     (if \<not> strings_Contains contents v then Some (Errorf (''not contains: "'' @ v @ ''"'')) else None)\<close>

text \<open>The expression is compiled when the rule function is built, before it sees the contents.\<close>

definition RegexRule :: "env \<Rightarrow> string \<Rightarrow> panic + (string \<Rightarrow> error option)" where
  \<open>RegexRule E expr =
     (case MustCompile E expr of
        None \<Rightarrow> Inl (MustCompilePanic expr)
      | Some regex \<Rightarrow>
          Inr (\<lambda>contents. if regex contents then Some (Errorf (''regexp match: "'' @ expr @ ''"'')) else None))\<close>

definition ShouldInclude :: "env \<Rightarrow> Rule \<Rightarrow> string \<Rightarrow> error + bool" where
  "ShouldInclude E r file = (if length (Include r) = 0 then Inr True else globAnyMatch E (Include r) file)"

definition ShouldExclude :: "env \<Rightarrow> Rule \<Rightarrow> string \<Rightarrow> error + bool" where
  "ShouldExclude E r file = (if length (Exclude r) = 0 then Inr False else globAnyMatch E (Exclude r) file)"

definition Apply :: "env \<Rightarrow> Rule \<Rightarrow> string \<Rightarrow> panic + error option" where
  "Apply E r contents =
     (if length (Contains r) > 0 then Inr (ContainsRule (Contains r) contents)
      else if length (NotContains r) > 0 then Inr (NotContainsRule (NotContains r) contents)
      else if length (Regex r) > 0 then
        (case RegexRule E (Regex r) of
           Inl p \<Rightarrow> Inl p
         | Inr ruleFunc \<Rightarrow> Inr (ruleFunc contents))
      else Inr (Some (Errorf ''no rule set'')))"

section \<open>The loop over the rules of a file\<close>

type_synonym AnsiColor = string

definition ColorRed :: AnsiColor where "ColorRed = ''31m''"
definition ColorLightWhite :: AnsiColor where "ColorLightWhite = ''97m''"
definition ColorReset :: AnsiColor where "ColorReset = ''0m''"

definition escaped :: "AnsiColor \<Rightarrow> string" where
  "escaped acc = CHR 0x1B # ''['' @ acc"

definition ColorApply :: "AnsiColor \<Rightarrow> string \<Rightarrow> string" where
  "ColorApply acc txt = escaped acc @ txt @ escaped ColorReset"

text \<open>The message of the error the loop returns for a violation (\<open>fmt.Errorf\<close> at line 129).\<close>

definition violationMessage :: "string \<Rightarrow> error \<Rightarrow> Rule \<Rightarrow> string" where
  "violationMessage file err rule =
     [CHR 0x0A, CHR 0x09] @ ColorApply ColorLightWhite file @ '' '' @ ColorApply ColorRed ''failed''
       @ '': '' @ errorString err
     @ [CHR 0x0A, CHR 0x09] @ ColorApply ColorLightWhite ''message'' @ '': '' @ Message rule
     @ [CHR 0x0A, CHR 0x09] @ ColorApply ColorLightWhite ''rules file'' @ '': '' @ File rule
     @ [CHR 0x0A, CHR 0x09] @ ColorApply ColorLightWhite ''include'' @ '': '' @ Include rule
     @ [CHR 0x0A, CHR 0x09] @ ColorApply ColorLightWhite ''exclude'' @ '': '' @ Exclude rule"

text \<open>
  \<open>for _, rule := range rules\<close> in \<open>main\<close> (lines 111 to 143). The result is what
  the walk function returns from inside the loop, \<open>Inr None\<close> when the loop runs to its
  end, and \<open>Inl\<close> when \<open>Apply\<close> panics.
\<close>

fun ruleLoop :: "env \<Rightarrow> Rule list \<Rightarrow> string \<Rightarrow> string \<Rightarrow> panic + error option" where
  "ruleLoop E [] file contents = Inr None"
| "ruleLoop E (rule # rules) file contents =
     (case ShouldInclude E rule file of
        Inl err \<Rightarrow> Inr (Some err)
      | Inr matches \<Rightarrow>
          if \<not> matches then ruleLoop E rules file contents
          else (case ShouldExclude E rule file of
                  Inl err \<Rightarrow> Inr (Some err)
                | Inr matches \<Rightarrow>
                    if matches then ruleLoop E rules file contents
                    else (case Apply E rule contents of
                            Inl p \<Rightarrow> Inl p
                          | Inr (Some err) \<Rightarrow> Inr (Some (Errorf (violationMessage file err rule)))
                          | Inr None \<Rightarrow> ruleLoop E rules file contents)))"

text \<open>
  Two notions to state what the loop does with a rule. The loop skips a rule whose include
  filter is set and does not match the file, and, the include filter passed, a rule whose
  exclude filter is set and matches the file; it applies a rule that passed both.
\<close>

definition skipsRule :: "env \<Rightarrow> Rule \<Rightarrow> string \<Rightarrow> bool" where
  "skipsRule E r file \<longleftrightarrow>
     (Include r \<noteq> [] \<and> globAnyMatch E (Include r) file = Inr False)
     \<or> (ShouldInclude E r file = Inr True \<and> Exclude r \<noteq> [] \<and> globAnyMatch E (Exclude r) file = Inr True)"

definition appliesRule :: "env \<Rightarrow> Rule \<Rightarrow> string \<Rightarrow> bool" where
  "appliesRule E r file \<longleftrightarrow> ShouldInclude E r file = Inr True \<and> ShouldExclude E r file = Inr False"

section \<open>The walk\<close>

text \<open>
  What \<open>filepath.Walk\<close> hands to the walk function for one entry of the tree: the path,
  whether it is a directory, the error of the walker if it has one, and the order in which
  \<open>range\<close> goes through \<open>packageRules\<close> should this call reach \<open>discoverRules\<close>.
\<close>

record entry =
  entryPath :: string
  entryIsDir :: bool
  entryErr :: "error option"
  entryKeys :: "string list"

definition walkFn :: "env \<Rightarrow> state \<Rightarrow> entry \<Rightarrow> state \<times> (panic + error option)" where
  "walkFn E s en =
     (let file = entryPath en in
      case entryErr en of
        Some err \<Rightarrow> (s, Inr (Some err))
      | None \<Rightarrow>
          if entryIsDir en \<and> strings_HasSuffix file ''.git'' then (s, Inr (Some SkipDir))
          else if entryIsDir en \<and> strings_HasSuffix file ''_bin'' then (s, Inr (Some SkipDir))
          else if entryIsDir en then (s, Inr None)
          else
            (case (if length (include_flag E) > 0 then globAnyMatch E (include_flag E) file else Inr True) of
               Inl err \<Rightarrow> (s, Inr (Some err))
             | Inr included \<Rightarrow>
                 if \<not> included then (s, Inr None)
                 else
                   (case (if length (exclude_flag E) > 0 then globAnyMatch E (exclude_flag E) file else Inr False) of
                      Inl err \<Rightarrow> (s, Inr (Some err))
                    | Inr excluded \<Rightarrow>
                        if excluded then (s, Inr None)
                        else
                          (case Match E DefaultProfanityFile (Base E file) of
                             Inl err \<Rightarrow> (s, Inr (Some err))
                           | Inr matches \<Rightarrow>
                               if matches then (s, Inr None)
                               else
                                 (case getRules E (entryKeys en) s (Dir E file) of
                                    (s1, Inl err) \<Rightarrow> (s1, Inr (Some err))
                                  | (s1, Inr rules) \<Rightarrow>
                                      (case ReadFile E file of
                                         Inl err \<Rightarrow> (s1, Inr (Some err))
                                       | Inr contents \<Rightarrow> (s1, ruleLoop E rules file contents)))))))"

text \<open>
  \<open>filepath.Walk\<close> over the entries of the tree in the order it visits them: it stops at
  the first error of the walk function and returns it, but for \<open>SkipDir\<close> on a directory,
  where it leaves out what lies under that directory and goes on. A panic ends the walk
  too.
\<close>

fun walk :: "env \<Rightarrow> state \<Rightarrow> entry list \<Rightarrow> state \<times> (panic + error option)" where
  "walk E s [] = (s, Inr None)"
| "walk E s (en # rest) =
     (case walkFn E s en of
        (s1, Inl p) \<Rightarrow> (s1, Inl p)
      | (s1, Inr None) \<Rightarrow> walk E s1 rest
      | (s1, Inr (Some err)) \<Rightarrow>
          if err = SkipDir \<and> entryIsDir en
          then walk E s1 (filter (\<lambda>e. \<not> strings_HasPrefix (entryPath e) (entryPath en @ ''/'')) rest)
          else (s1, Inr (Some err)))"

text \<open>The exit status of \<open>main\<close>: 0, 1 for an error of the walk, 2 for a Go panic.\<close>

definition exitStatus :: "env \<Rightarrow> entry list \<Rightarrow> nat" where
  "exitStatus E entries =
     (case snd (walk E initState entries) of
        Inl p \<Rightarrow> 2
      | Inr None \<Rightarrow> 0
      | Inr (Some err) \<Rightarrow> 1)"

section \<open>An example tree\<close>

text \<open>
  One environment to run the functions on. Its \<open>Match\<close> is \<open>filepath.Match\<close> on the
  patterns the examples use: literal bytes, \<open>?\<close> and \<open>*\<close> (neither takes a \<open>/\<close>),
  and a pattern whose \<open>[\<close> is never closed, which is malformed; character classes and
  escapes are not part of it.
\<close>

fun globMatch :: "string \<Rightarrow> string \<Rightarrow> bool" where
  "globMatch [] name = (name = [])"
| "globMatch (p # ps) [] = (p = CHR ''*'' \<and> globMatch ps [])"
| "globMatch (p # ps) (c # cs) =
     (if p = CHR ''*'' then globMatch ps (c # cs) \<or> (c \<noteq> CHR ''/'' \<and> globMatch (p # ps) cs)
      else if p = CHR ''?'' then c \<noteq> CHR ''/'' \<and> globMatch ps cs
      else p = c \<and> globMatch ps cs)"

definition exampleMatch :: "string \<Rightarrow> string \<Rightarrow> error + bool" where
  "exampleMatch pattern name =
     (if CHR ''['' \<in> set pattern \<and> CHR '']'' \<notin> set pattern then Inl ErrBadPattern
      else Inr (globMatch pattern name))"

text \<open>
  \<open>filepath.Base\<close>: the last element of the path, trailing separators removed first;
  \<open>.\<close> for the empty path and \<open>/\<close> for a path of separators only.
\<close>

definition exampleBase :: "string \<Rightarrow> string" where
  "exampleBase p =
     (if p = [] then ''.''
      else (let q = dropWhile (\<lambda>c. c = CHR ''/'') (rev p)
            in if q = [] then ''/'' else rev (takeWhile (\<lambda>c. c \<noteq> CHR ''/'') q)))"

text \<open>
  \<open>filepath.Dir\<close> and \<open>filepath.Join\<close> on the clean relative paths of a walk that
  starts at \<open>.\<close>.
\<close>

definition exampleDir :: "string \<Rightarrow> string" where
  "exampleDir p =
     (if CHR ''/'' \<in> set p then rev (tl (dropWhile (\<lambda>c. c \<noteq> CHR ''/'') (rev p))) else ''.'')"

definition exampleJoin :: "string \<Rightarrow> string \<Rightarrow> string" where
  "exampleJoin d name = (if d = ''.'' then name else d @ ''/'' @ name)"

text \<open>
  The tree: rule files at the root and in \<open>foo\<close>, \<open>foo/bar\<close>, \<open>bad\<close> and
  \<open>worse\<close>, none in \<open>foobar\<close> and \<open>a\<close>. The rule of \<open>bad\<close> has a malformed
  include filter, the rule of \<open>worse\<close> an expression that does not compile.
\<close>

definition todoRule :: Rule where
  "todoRule = \<lparr>File = [], Message = ''no TODOs'', Contains = ''TODO'', NotContains = [],
     Regex = [], Include = [], Exclude = []\<rparr>"

definition licenseRule :: Rule where
  "licenseRule = \<lparr>File = [], Message = ''license'', Contains = [], NotContains = ''LICENSE'',
     Regex = [], Include = ''*.go'', Exclude = []\<rparr>"

definition unsetRule :: Rule where
  "unsetRule = \<lparr>File = [], Message = ''nothing set'', Contains = [], NotContains = [],
     Regex = [], Include = [], Exclude = []\<rparr>"

definition badGlobRule :: Rule where
  "badGlobRule = \<lparr>File = [], Message = ''bad glob'', Contains = ''x'', NotContains = [],
     Regex = [], Include = ''['', Exclude = []\<rparr>"

definition badRegexRule :: Rule where
  "badRegexRule = \<lparr>File = [], Message = ''bad regex'', Contains = [], NotContains = [],
     Regex = ''('', Include = [], Exclude = []\<rparr>"

definition rootRulesText :: string where
  \<open>rootRulesText = ''- {message: no TODOs, contains: TODO}''\<close>

definition fooRulesText :: string where
  \<open>fooRulesText = ''- {message: license, notContains: LICENSE, include: "*.go"}''\<close>

definition badRulesText :: string where
  \<open>badRulesText = ''- {message: bad glob, contains: x, include: "["}''\<close>

definition worseRulesText :: string where
  \<open>worseRulesText = ''- {message: bad regex, regex: "("}''\<close>

definition exampleReadFile :: "string \<Rightarrow> error + string" where
  "exampleReadFile p =
     (if p = ''PROFANITY'' then Inr rootRulesText
      else if p = ''foo/PROFANITY'' then Inr fooRulesText
      else if p = ''foo/bar/PROFANITY'' then Inr rootRulesText
      else if p = ''bad/PROFANITY'' then Inr badRulesText
      else if p = ''worse/PROFANITY'' then Inr worseRulesText
      else if p = ''bad/x.go'' then Inr ''package bad''
      else if p = ''worse/x.go'' then Inr ''package worse''
      else if p = ''Makefile'' then Inr ''all:''
      else if p = ''foobar/x.go'' then Inr ''package foobar''
      else if p = ''a/x.go'' then Inr ''// TODO: write it''
      else Inl (ExtError ''no such file''))"

definition exampleUnmarshal :: "string \<Rightarrow> error + Rule list" where
  "exampleUnmarshal contents =
     (if contents = rootRulesText then Inr [todoRule]
      else if contents = fooRulesText then Inr [licenseRule]
      else if contents = badRulesText then Inr [badGlobRule]
      else if contents = worseRulesText then Inr [badRegexRule]
      else Inl (ExtError ''cannot unmarshal''))"

text \<open>
  Of \<open>regexp\<close>, the expressions of letters only, which match where they occur as a
  substring; every other expression stands for one that does not compile, such as \<open>(\<close>.
\<close>

definition exampleMustCompile :: "string \<Rightarrow> (string \<Rightarrow> bool) option" where
  "exampleMustCompile expr =
     (if list_all (\<lambda>c. c \<in> set ''abcdefghijklmnopqrstuvwxyzABCDEFGHIJKLMNOPQRSTUVWXYZ'') expr
      then Some (\<lambda>contents. strings_Contains contents expr)
      else None)"

definition exampleEnv :: env where
  "exampleEnv = \<lparr>rulesFile = DefaultProfanityFile, include_flag = [], exclude_flag = [],
     Match = exampleMatch, Base = exampleBase, Dir = exampleDir, Join = exampleJoin,
     Stat = (\<lambda>p. p \<in> {''PROFANITY'', ''foo/PROFANITY'', ''foo/bar/PROFANITY'', ''bad/PROFANITY'',
                       ''worse/PROFANITY''}),
     ReadFile = exampleReadFile, Unmarshal = exampleUnmarshal,
     MustCompile = exampleMustCompile\<rparr>"

text \<open>The two maps after \<open>getRules\<close> has been called for \<open>foo\<close>.\<close>

definition fooState :: state where
  "fooState = \<lparr>realizedRules = [''foo'' \<mapsto> [licenseRule\<lparr>File := ''foo/PROFANITY''\<rparr>]],
     packageRules = [''foo'' \<mapsto> [licenseRule\<lparr>File := ''foo/PROFANITY''\<rparr>]],
     loaderCalls = [''foo'']\<rparr>"

text \<open>The two maps after \<open>getRules\<close> has been called for the root.\<close>

definition rootState :: state where
  "rootState = \<lparr>realizedRules = [''.'' \<mapsto> [todoRule\<lparr>File := ''PROFANITY''\<rparr>]],
     packageRules = [''.'' \<mapsto> [todoRule\<lparr>File := ''PROFANITY''\<rparr>]],
     loaderCalls = [''.'']\<rparr>"

text \<open>Entries of the walk for a file and for a directory, with no error of the walker.\<close>

definition fileEntry :: "string \<Rightarrow> string list \<Rightarrow> entry" where
  "fileEntry p keys = \<lparr>entryPath = p, entryIsDir = False, entryErr = None, entryKeys = keys\<rparr>"

definition dirEntry :: "string \<Rightarrow> entry" where
  "dirEntry p = \<lparr>entryPath = p, entryIsDir = True, entryErr = None, entryKeys = []\<rparr>"

text \<open>The patterns of the examples, with the white space around them removed.\<close>

lemma trim_facts:
  "strings_TrimSpace ''c.go'' = ''c.go''"
  "strings_TrimSpace '' c.go'' = ''c.go''"
  "strings_TrimSpace ''*.go'' = ''*.go''"
  "strings_TrimSpace '' *.go'' = ''*.go''"
  "strings_TrimSpace ''*.md'' = ''*.md''"
  "strings_TrimSpace ''['' = ''[''"
  "strings_TrimSpace '' ['' = ''[''"
  "strings_TrimSpace (CHR 0xC2 # CHR 0xA0 # ''c.go'' @ [CHR 0xE2, CHR 0x80, CHR 0x83]) = ''c.go''"
  by (simp_all add: strings_TrimSpace_def TrimLeftSpace.simps TrimRightSpace.simps spaceRunes_def
        strings_HasPrefix_def strings_HasSuffix_def)

lemmas example_defs = globAnyMatch_def trim_facts exampleEnv_def
  exampleMatch_def exampleBase_def exampleDir_def exampleJoin_def exampleReadFile_def
  exampleUnmarshal_def exampleMustCompile_def DefaultProfanityFile_def rootRulesText_def
  fooRulesText_def badRulesText_def worseRulesText_def todoRule_def licenseRule_def unsetRule_def
  badGlobRule_def badRegexRule_def fileEntry_def dirEntry_def initState_def fooState_def rootState_def Let_def

lemmas run_defs = walkFn_def getRules_def discoverRules_def localRules_def deserializeRules_def
  ShouldInclude_def ShouldExclude_def Apply_def ContainsRule_def NotContainsRule_def RegexRule_def
  strings_HasPrefix_def strings_HasSuffix_def

section \<open>Facts about the string functions\<close>

lemma strings_HasPrefix_iff: "strings_HasPrefix s p \<longleftrightarrow> (\<exists>t. s = p @ t)"
  unfolding strings_HasPrefix_def
  by (metis append_eq_conv_conj append_take_drop_id)

lemma strings_Contains_iff: "strings_Contains s sub \<longleftrightarrow> (\<exists>u v. s = u @ sub @ v)"
proof (induction s)
  case Nil
  then show ?case by auto
next
  case (Cons c cs)
  show ?case
  proof
    assume "strings_Contains (c # cs) sub"
    then consider "strings_HasPrefix (c # cs) sub" | "strings_Contains cs sub" by auto
    then show "\<exists>u v. c # cs = u @ sub @ v"
    proof cases
      case 1
      then obtain t where "c # cs = sub @ t" by (auto simp: strings_HasPrefix_iff)
      then have "c # cs = [] @ sub @ t" by simp
      then show ?thesis by blast
    next
      case 2
      then obtain u v where "cs = u @ sub @ v" using Cons.IH by auto
      then have "c # cs = (c # u) @ sub @ v" by simp
      then show ?thesis by blast
    qed
  next
    assume "\<exists>u v. c # cs = u @ sub @ v"
    then obtain u v where uv: "c # cs = u @ sub @ v" by auto
    show "strings_Contains (c # cs) sub"
    proof (cases u)
      case Nil
      with uv have "strings_HasPrefix (c # cs) sub" by (auto simp: strings_HasPrefix_iff)
      then show ?thesis by simp
    next
      case (Cons a u')
      with uv have "cs = u' @ sub @ v" by simp
      then have "strings_Contains cs sub" using Cons.IH by auto
      then show ?thesis by simp
    qed
  qed
qed

lemma strings_Split_not_empty: "strings_Split s sep \<noteq> []"
  by (induction s) (auto split: list.splits)




text \<open>
  What \<open>strings_TrimSpace\<close> returns has no white space rune at its front or at its
  end, and the string is that, with white space runes before and after it.
\<close>

lemma spaceRunes_not_empty: "rune \<in> set spaceRunes \<Longrightarrow> rune \<noteq> []"
  by (auto simp: spaceRunes_def)

lemma TrimLeftSpace_spec:
  "find (strings_HasPrefix (TrimLeftSpace s)) spaceRunes = None
   \<and> (\<exists>runes. set runes \<subseteq> set spaceRunes \<and> s = concat runes @ TrimLeftSpace s)"
proof (induction s rule: TrimLeftSpace.induct)
  case (1 s)
  show ?case
  proof (cases "find (strings_HasPrefix s) spaceRunes")
    case None
    then have "TrimLeftSpace s = s" by (simp add: TrimLeftSpace.simps)
    moreover have "set [] \<subseteq> set spaceRunes \<and> s = concat [] @ s" by simp
    ultimately show ?thesis using None by metis
  next
    case (Some rune)
    then have t: "TrimLeftSpace s = TrimLeftSpace (drop (length rune) s)"
      by (subst TrimLeftSpace.simps) simp
    from Some have p: "strings_HasPrefix s rune" and m: "rune \<in> set spaceRunes"
      by (auto simp: find_Some_iff)
    from p have s: "s = rune @ drop (length rune) s"
      by (metis append_take_drop_id strings_HasPrefix_def)
    from "1.IH" [OF Some] obtain runes where
      n: "find (strings_HasPrefix (TrimLeftSpace (drop (length rune) s))) spaceRunes = None"
      and r: "set runes \<subseteq> set spaceRunes"
        "drop (length rune) s = concat runes @ TrimLeftSpace (drop (length rune) s)"
      by blast
    have "set (rune # runes) \<subseteq> set spaceRunes" using m r(1) by simp
    moreover have "s = concat (rune # runes) @ TrimLeftSpace s"
      using s r(2) t by (metis append.assoc concat.simps(2))
    ultimately show ?thesis using n t by metis
  qed
qed

lemma TrimRightSpace_spec:
  "find (strings_HasSuffix (TrimRightSpace s)) spaceRunes = None
   \<and> (\<exists>runes. set runes \<subseteq> set spaceRunes \<and> s = TrimRightSpace s @ concat runes)"
proof (induction s rule: TrimRightSpace.induct)
  case (1 s)
  show ?case
  proof (cases "find (strings_HasSuffix s) spaceRunes")
    case None
    then have "TrimRightSpace s = s" by (simp add: TrimRightSpace.simps)
    moreover have "set [] \<subseteq> set spaceRunes \<and> s = s @ concat []" by simp
    ultimately show ?thesis using None by metis
  next
    case (Some rune)
    let ?t = "take (length s - length rune) s"
    from Some have t: "TrimRightSpace s = TrimRightSpace ?t"
      by (subst TrimRightSpace.simps) simp
    from Some have p: "strings_HasSuffix s rune" and m: "rune \<in> set spaceRunes"
      by (auto simp: find_Some_iff)
    from p have s: "s = ?t @ rune"
      by (metis append_take_drop_id strings_HasSuffix_def)
    from "1.IH" [OF Some] obtain runes where
      n: "find (strings_HasSuffix (TrimRightSpace ?t)) spaceRunes = None"
      and r: "set runes \<subseteq> set spaceRunes" "?t = TrimRightSpace ?t @ concat runes"
      by blast
    have "set (runes @ [rune]) \<subseteq> set spaceRunes" using m r(1) by simp
    moreover have "s = TrimRightSpace s @ concat (runes @ [rune])"
      using s r(2) t by (metis append.assoc append_Nil2 concat.simps(1) concat.simps(2) concat_append)
    ultimately show ?thesis using n t by metis
  qed
qed

lemma no_rune_prefix_append:
  assumes "find (strings_HasPrefix (a @ b)) spaceRunes = None"
  shows "find (strings_HasPrefix a) spaceRunes = None"
proof -
  have "\<not> strings_HasPrefix a rune" if "rune \<in> set spaceRunes" for rune
  proof
    assume "strings_HasPrefix a rune"
    then have "strings_HasPrefix (a @ b) rune" by (auto simp: strings_HasPrefix_iff)
    with assms that show False by (auto simp: find_None_iff)
  qed
  then show ?thesis by (auto simp: find_None_iff)
qed

lemma strings_TrimSpace_spec:
  "find (strings_HasPrefix (strings_TrimSpace s)) spaceRunes = None
   \<and> find (strings_HasSuffix (strings_TrimSpace s)) spaceRunes = None
   \<and> (\<exists>lead trail. set lead \<subseteq> set spaceRunes \<and> set trail \<subseteq> set spaceRunes
          \<and> s = concat lead @ strings_TrimSpace s @ concat trail)"
proof -
  let ?l = "TrimLeftSpace s"
  obtain lead where f: "set lead \<subseteq> set spaceRunes" "s = concat lead @ ?l"
    and nl: "find (strings_HasPrefix ?l) spaceRunes = None"
    using TrimLeftSpace_spec [of s] by blast
  obtain trail where b: "set trail \<subseteq> set spaceRunes" "?l = TrimRightSpace ?l @ concat trail"
    and nr: "find (strings_HasSuffix (TrimRightSpace ?l)) spaceRunes = None"
    using TrimRightSpace_spec [of ?l] by blast
  have "find (strings_HasPrefix (TrimRightSpace ?l)) spaceRunes = None"
    using nl b(2) no_rune_prefix_append [of "TrimRightSpace ?l" "concat trail"] by simp
  moreover have "s = concat lead @ TrimRightSpace ?l @ concat trail" using f(2) b(2) by simp
  ultimately show ?thesis using f(1) b(1) nr unfolding strings_TrimSpace_def by blast
qed

section \<open>Resolving the rules of a directory\<close>

lemma inheritLoop_keeps_rules: "\<exists>pre. inheritLoop pk dir keys rules = pre @ rules"
proof (induction keys arbitrary: rules)
  case Nil
  then show ?case by simp
next
  case (Cons key keys)
  show ?case
  proof (cases "pk key")
    case None
    then show ?thesis using Cons.IH [of rules] by simp
  next
    case (Some inherited)
    show ?thesis
    proof (cases "strings_HasPrefix dir key \<and> key \<noteq> dir")
      case True
      obtain pre where "inheritLoop pk dir keys (inherited @ rules) = pre @ inherited @ rules"
        using Cons.IH [of "inherited @ rules"] by auto
      then have "inheritLoop pk dir (key # keys) rules = (pre @ inherited) @ rules"
        using Some True by simp
      then show ?thesis by blast
    next
      case False
      then show ?thesis using Some Cons.IH [of rules] by auto
    qed
  qed
qed

lemma inheritLoop_has_key:
  assumes "K \<in> set keys" and "pk K = Some kr" and "strings_HasPrefix dir K" and "K \<noteq> dir"
  shows "\<exists>pre mid. inheritLoop pk dir keys rules = pre @ kr @ mid @ rules"
  using assms(1)
proof (induction keys arbitrary: rules)
  case Nil
  then show ?case by simp
next
  case (Cons key keys)
  show ?case
  proof (cases "key = K")
    case True
    obtain pre where "inheritLoop pk dir keys (kr @ rules) = pre @ kr @ rules"
      using inheritLoop_keeps_rules [of pk dir keys "kr @ rules"] by auto
    then have "inheritLoop pk dir (key # keys) rules = pre @ kr @ [] @ rules"
      using True assms(2-4) by simp
    then show ?thesis by blast
  next
    case False
    then have K: "K \<in> set keys" using Cons.prems by simp
    show ?thesis
    proof (cases "pk key")
      case None
      then show ?thesis using Cons.IH [OF K, of rules] by simp
    next
      case (Some inherited)
      show ?thesis
      proof (cases "strings_HasPrefix dir key \<and> key \<noteq> dir")
        case True
        obtain pre mid where "inheritLoop pk dir keys (inherited @ rules) = pre @ kr @ mid @ inherited @ rules"
          using Cons.IH [OF K, of "inherited @ rules"] by auto
        then have "inheritLoop pk dir (key # keys) rules = pre @ kr @ (mid @ inherited) @ rules"
          using Some True by simp
        then show ?thesis by blast
      next
        case False
        then show ?thesis using Some Cons.IH [OF K, of rules] by auto
      qed
    qed
  qed
qed

lemma discoverRules_state: "fst (discoverRules E keys s dir) = fst (localRules E s dir)"
  by (cases "localRules E s dir") (auto simp: discoverRules_def Let_def split: sum.splits)

lemma discoverRules_Inr:
  assumes "discoverRules E keys s dir = (s', Inr rules)"
  shows "\<exists>loc. localRules E s dir = (s', Inr loc)
     \<and> (\<exists>pre. rules = pre @ inheritLoop (packageRules s') dir keys loc)"
proof (cases "localRules E s dir")
  case (Pair s1 res)
  show ?thesis
  proof (cases res)
    case (Inl err)
    with Pair assms show ?thesis by (simp add: discoverRules_def)
  next
    case (Inr loc)
    with Pair assms have s1: "s1 = s'" by (simp add: discoverRules_def Let_def)
    have "\<exists>pre. rules = pre @ inheritLoop (packageRules s') dir keys loc"
    proof (cases "packageRules s' ''.''")
      case None
      with Pair Inr assms s1 have "rules = [] @ inheritLoop (packageRules s') dir keys loc"
        by (simp add: discoverRules_def Let_def)
      then show ?thesis by blast
    next
      case (Some rootRules)
      with Pair Inr assms s1 have "rules = (if dir \<noteq> ''.'' then rootRules else []) @ inheritLoop (packageRules s') dir keys loc"
        by (auto simp: discoverRules_def Let_def)
      then show ?thesis by blast
    qed
    with Pair Inr s1 show ?thesis by simp
  qed
qed

text \<open>
  Claim C1. Let \<open>discoverRules\<close> return \<open>rules\<close> for the directory \<open>d\<close>, the
  \<open>range\<close> loop going through the keys of \<open>packageRules\<close> in any order \<open>keys\<close>.
  Then \<open>rules\<close> ends with the local rules \<open>loc\<close> of \<open>d\<close> (what \<open>localRules\<close>
  returned: empty when \<open>d\<close> has no rules file), and for every key \<open>K\<close> of
  \<open>packageRules\<close> that is a prefix of \<open>d\<close> as a string and is not \<open>d\<close>, the
  rules stored under \<open>K\<close> stand in \<open>rules\<close>, as one block, before \<open>loc\<close>. The
  test is on the text of the two paths only.
\<close>

theorem inherited_rules_precede_local_rules:
  assumes "discoverRules E keys s d = (s', Inr rules)"
    and "distinct keys" and "set keys = dom (packageRules s')"
  shows "\<exists>loc. localRules E s d = (s', Inr loc)
     \<and> (\<exists>pre. rules = pre @ loc)
     \<and> (\<forall>K kr t. packageRules s' K = Some kr \<and> d = K @ t \<and> t \<noteq> []
            \<longrightarrow> (\<exists>pre mid. rules = pre @ kr @ mid @ loc))"
proof -
  obtain loc pre0 where loc: "localRules E s d = (s', Inr loc)"
    and r: "rules = pre0 @ inheritLoop (packageRules s') d keys loc"
    using discoverRules_Inr [OF assms(1)] by auto
  obtain pre1 where "inheritLoop (packageRules s') d keys loc = pre1 @ loc"
    using inheritLoop_keeps_rules [of "packageRules s'" d keys loc] by auto
  with r have "rules = (pre0 @ pre1) @ loc" by simp
  then have suffix: "\<exists>pre. rules = pre @ loc" by blast
  have "\<exists>pre mid. rules = pre @ kr @ mid @ loc"
    if h: "packageRules s' K = Some kr \<and> d = K @ t \<and> t \<noteq> []" for K kr t
  proof -
    have K: "K \<in> set keys" using assms(3) h by auto
    have p: "strings_HasPrefix d K" using h by (auto simp: strings_HasPrefix_iff)
    have ne: "K \<noteq> d" using h by simp
    have kr: "packageRules s' K = Some kr" using h by simp
    obtain pre mid where "inheritLoop (packageRules s') d keys loc = pre @ kr @ mid @ loc"
      using inheritLoop_has_key [of K keys "packageRules s'" kr d loc, OF K kr p ne] by auto
    with r have "rules = (pre0 @ pre) @ kr @ mid @ loc" by simp
    then show ?thesis by blast
  qed
  with loc suffix show ?thesis by blast
qed

text \<open>
  \<open>foo\<close> is a prefix of \<open>foobar\<close>, which is no directory under \<open>foo\<close>: the
  rules of \<open>foo\<close> are the rules of \<open>foobar\<close>. For \<open>foo/bar\<close>, which has a rules
  file, the rules of \<open>foo\<close> come before its own.
\<close>

theorem inherited_rules_precede_local_rules_witness:
  "discoverRules exampleEnv [''foo''] fooState ''foobar''
     = (fooState\<lparr>loaderCalls := [''foo'', ''foobar'']\<rparr>, Inr [licenseRule\<lparr>File := ''foo/PROFANITY''\<rparr>])
   \<and> discoverRules exampleEnv [''foo/bar'', ''foo''] fooState ''foo/bar''
     = (fooState\<lparr>loaderCalls := [''foo'', ''foo/bar''],
          packageRules := (packageRules fooState)(''foo/bar'' \<mapsto> [todoRule\<lparr>File := ''foo/bar/PROFANITY''\<rparr>])\<rparr>,
        Inr [licenseRule\<lparr>File := ''foo/PROFANITY''\<rparr>, todoRule\<lparr>File := ''foo/bar/PROFANITY''\<rparr>])
   \<and> (\<exists>pre mid. [licenseRule\<lparr>File := ''foo/PROFANITY''\<rparr>]
         = pre @ [licenseRule\<lparr>File := ''foo/PROFANITY''\<rparr>] @ mid @ [])
   \<and> (\<exists>pre mid. [licenseRule\<lparr>File := ''foo/PROFANITY''\<rparr>, todoRule\<lparr>File := ''foo/bar/PROFANITY''\<rparr>]
         = pre @ [licenseRule\<lparr>File := ''foo/PROFANITY''\<rparr>] @ mid @ [todoRule\<lparr>File := ''foo/bar/PROFANITY''\<rparr>])"
proof -
  let ?lic = "licenseRule\<lparr>File := ''foo/PROFANITY''\<rparr>"
  let ?todo = "todoRule\<lparr>File := ''foo/bar/PROFANITY''\<rparr>"
  let ?s1 = "fooState\<lparr>loaderCalls := [''foo'', ''foobar'']\<rparr>"
  let ?s2 = "fooState\<lparr>loaderCalls := [''foo'', ''foo/bar''],
          packageRules := (packageRules fooState)(''foo/bar'' \<mapsto> [?todo])\<rparr>"
  have d1: "discoverRules exampleEnv [''foo''] fooState ''foobar'' = (?s1, Inr [?lic])"
    by (simp add: example_defs run_defs)
  have k1: "distinct [''foo''] \<and> set [''foo''] = dom (packageRules ?s1)"
    by (simp add: fooState_def)
  have l1: "localRules exampleEnv fooState ''foobar'' = (?s1, Inr [])"
    by (simp add: example_defs run_defs)
  have d2: "discoverRules exampleEnv [''foo/bar'', ''foo''] fooState ''foo/bar'' = (?s2, Inr [?lic, ?todo])"
    by (simp add: example_defs run_defs)
  have k2: "distinct [''foo/bar'', ''foo''] \<and> set [''foo/bar'', ''foo''] = dom (packageRules ?s2)"
    by (auto simp: fooState_def)
  have l2: "localRules exampleEnv fooState ''foo/bar'' = (?s2, Inr [?todo])"
    by (simp add: example_defs run_defs)
  have p1: "packageRules ?s1 ''foo'' = Some [?lic] \<and> ''foobar'' = ''foo'' @ ''bar'' \<and> ''bar'' \<noteq> []"
    by (simp add: fooState_def)
  have p2: "packageRules ?s2 ''foo'' = Some [?lic] \<and> ''foo/bar'' = ''foo'' @ ''/bar'' \<and> ''/bar'' \<noteq> []"
    by (simp add: fooState_def)
  from inherited_rules_precede_local_rules [OF d1 conjunct1 [OF k1] conjunct2 [OF k1]] l1 p1
  have c1: "\<exists>pre mid. [?lic] = pre @ [?lic] @ mid @ []"
    by (metis Pair_inject sum.inject(2))
  from inherited_rules_precede_local_rules [OF d2 conjunct1 [OF k2] conjunct2 [OF k2]] l2 p2
  have c2: "\<exists>pre mid. [?lic, ?todo] = pre @ [?lic] @ mid @ [?todo]"
    by (metis Pair_inject sum.inject(2))
  from d1 d2 c1 c2 show ?thesis by blast
qed

lemma localRules_absent:
  "\<not> Stat E (Join E d (rulesFile E)) \<Longrightarrow>
   localRules E s d = (s\<lparr>loaderCalls := loaderCalls s @ [d]\<rparr>, Inr [])"
  by (simp add: localRules_def Let_def)

lemma discoverRules_absent:
  assumes "\<not> Stat E (Join E d (rulesFile E))"
  shows "discoverRules E keys s d =
     (s\<lparr>loaderCalls := loaderCalls s @ [d]\<rparr>,
      Inr ((case packageRules s ''.'' of
              Some rootRules \<Rightarrow> if d \<noteq> ''.'' then rootRules else []
            | None \<Rightarrow> [])
           @ inheritLoop (packageRules s) d keys []))"
  using assms by (simp add: discoverRules_def localRules_absent split: option.splits)

text \<open>
  Claim C2, as the code has it. The rules of the root are put in front for a directory
  \<open>d\<close> other than the root when \<open>packageRules\<close> holds them, that is when
  \<open>getRules\<close> has been called for the root before, for a file that lies in the root
  itself and is not the rules file. That a rules file exists in the root is not enough:
  nothing reads it when \<open>d\<close> is resolved.
\<close>

theorem root_rules_when_discovered:
  assumes "packageRules s ''.'' = Some rootRules" and "d \<noteq> ''.''"
    and "\<not> Stat E (Join E d (rulesFile E))"
  shows "\<exists>others. discoverRules E keys s d = (s\<lparr>loaderCalls := loaderCalls s @ [d]\<rparr>, Inr (rootRules @ others))"
  using assms by (simp add: discoverRules_absent)

text \<open>
  With \<open>Makefile\<close> in the root, visited before \<open>a\<close>, the rule of the root is found
  and \<open>a/x.go\<close> is reported.
\<close>

theorem root_rules_when_discovered_witness:
  \<open>(\<exists>others. discoverRules exampleEnv [''.'']
        (fst (getRules exampleEnv [''.''] initState ''.'')) ''a''
      = ((fst (getRules exampleEnv [''.''] initState ''.''))\<lparr>loaderCalls := [''.'', ''a'']\<rparr>,
         Inr ([todoRule\<lparr>File := ''PROFANITY''\<rparr>] @ others)))
   \<and> snd (walk exampleEnv initState
        [dirEntry ''.'', fileEntry ''Makefile'' [''.''], fileEntry ''PROFANITY'' [''.''], dirEntry ''a'',
         fileEntry ''a/x.go'' [''.'']])
      = Inr (Some (Errorf (violationMessage ''a/x.go'' (Errorf ''contains: "TODO"'')
               (todoRule\<lparr>File := ''PROFANITY''\<rparr>))))\<close>
proof -
  let ?s = "fst (getRules exampleEnv [''.''] initState ''.'')"
  have s: "?s = \<lparr>realizedRules = [''.'' \<mapsto> [todoRule\<lparr>File := ''PROFANITY''\<rparr>]],
      packageRules = [''.'' \<mapsto> [todoRule\<lparr>File := ''PROFANITY''\<rparr>]], loaderCalls = [''.'']\<rparr>"
    by (simp add: example_defs run_defs)
  have p: "packageRules ?s ''.'' = Some [todoRule\<lparr>File := ''PROFANITY''\<rparr>]"
    unfolding s by simp
  have n: "''a'' \<noteq> ''.''" by simp
  have a: "\<not> Stat exampleEnv (Join exampleEnv ''a'' (rulesFile exampleEnv))"
    by (simp add: example_defs)
  have l: "loaderCalls ?s @ [''a''] = [''.'', ''a'']" unfolding s by simp
  from root_rules_when_discovered [OF p n a, of "[''.'']"] l
  have c: "\<exists>others. discoverRules exampleEnv [''.''] ?s ''a''
      = (?s\<lparr>loaderCalls := [''.'', ''a'']\<rparr>, Inr ([todoRule\<lparr>File := ''PROFANITY''\<rparr>] @ others))"
    by simp
  have w: \<open>snd (walk exampleEnv initState
        [dirEntry ''.'', fileEntry ''Makefile'' [''.''], fileEntry ''PROFANITY'' [''.''], dirEntry ''a'',
         fileEntry ''a/x.go'' [''.'']])
      = Inr (Some (Errorf (violationMessage ''a/x.go'' (Errorf ''contains: "TODO"'')
               (todoRule\<lparr>File := ''PROFANITY''\<rparr>))))\<close>
    by (simp add: example_defs run_defs)
  from c w show ?thesis by blast
qed

text \<open>
  The claim as the specification states it fails. The root has a rules file that forbids
  \<open>TODO\<close>, and \<open>a\<close> has none; the walk goes through \<open>.\<close>, \<open>PROFANITY\<close>
  (passed over as the rules file before \<open>getRules\<close> is called), \<open>a\<close> and
  \<open>a/x.go\<close>. The rules of \<open>a\<close> are empty, and the walk ends without an error
  although \<open>a/x.go\<close> holds \<open>TODO\<close>.
\<close>

theorem root_rules_only_once_discovered_counterexample:
  "Stat exampleEnv (Join exampleEnv ''.'' (rulesFile exampleEnv))
   \<and> deserializeRules exampleEnv (Join exampleEnv ''.'' (rulesFile exampleEnv))
       = Inr [todoRule\<lparr>File := ''PROFANITY''\<rparr>]
   \<and> ''a'' \<noteq> ''.''
   \<and> \<not> Stat exampleEnv (Join exampleEnv ''a'' (rulesFile exampleEnv))
   \<and> snd (discoverRules exampleEnv [] initState ''a'') = Inr []
   \<and> snd (getRules exampleEnv [] initState ''a'') = Inr []
   \<and> ReadFile exampleEnv ''a/x.go'' = Inr ''// TODO: write it''
   \<and> snd (walk exampleEnv initState
        [dirEntry ''.'', fileEntry ''PROFANITY'' [], dirEntry ''a'', fileEntry ''a/x.go'' []])
      = Inr None
   \<and> exitStatus exampleEnv
        [dirEntry ''.'', fileEntry ''PROFANITY'' [], dirEntry ''a'', fileEntry ''a/x.go'' []] = 0"
  by (simp add: example_defs run_defs exitStatus_def)

section \<open>The cache of resolved rules\<close>

lemma getRules_hit: "realizedRules s d = Some rules \<Longrightarrow> getRules E keys s d = (s, Inr rules)"
  by (simp add: getRules_def)

lemma getRules_stored:
  assumes "getRules E keys s d = (s1, Inr rules)"
  shows "realizedRules s1 d = Some rules"
proof (cases "realizedRules s d")
  case None
  with assms show ?thesis
    by (cases "discoverRules E keys s d") (auto simp: getRules_def split: sum.splits)
next
  case (Some a)
  with assms show ?thesis by (simp add: getRules_def)
qed

lemma getRules_again:
  "getRules E keys s d = (s1, Inr rules) \<Longrightarrow> getRules E' keys' s1 d = (s1, Inr rules)"
  by (rule getRules_hit, erule getRules_stored)

lemma getRules_absent:
  assumes "\<not> Stat E (Join E d (rulesFile E))"
  shows "\<exists>s' rules. getRules E keys s d = (s', Inr rules)"
proof (cases "realizedRules s d")
  case None
  then show ?thesis using assms by (simp add: getRules_def discoverRules_absent)
next
  case (Some a)
  then show ?thesis by (simp add: getRules_def)
qed

lemma inheritLoop_nothing:
  "\<forall>K \<in> dom pk. \<not> (\<exists>t. d = K @ t \<and> t \<noteq> []) \<Longrightarrow> inheritLoop pk d keys rules = rules"
proof (induction keys)
  case Nil
  then show ?case by simp
next
  case (Cons key keys)
  show ?case
  proof (cases "pk key")
    case None
    with Cons show ?thesis by simp
  next
    case (Some inherited)
    then have "key \<in> dom pk" by auto
    with Cons.prems have "\<not> (\<exists>t. d = key @ t \<and> t \<noteq> [])" by blast
    then have n: "\<not> (strings_HasPrefix d key \<and> key \<noteq> d)"
      by (auto simp: strings_HasPrefix_iff)
    have "inheritLoop pk d (key # keys) rules = inheritLoop pk d keys rules"
      using Some n by auto
    with Cons show ?thesis by simp
  qed
qed

text \<open>
  Claim C8, as the code has it. When \<open>os.Stat\<close> finds no rules file in \<open>d\<close>,
  \<open>localRules\<close> returns the empty sequence and no error, and records nothing: both maps
  are left as they are. It is \<open>getRules\<close> that stores, in \<open>realizedRules\<close> under
  \<open>d\<close>, what \<open>discoverRules\<close> returned: the rules \<open>d\<close> inherits, which are the
  empty sequence when \<open>packageRules\<close> has no rules of the root for \<open>d\<close> and no key
  that is a prefix of \<open>d\<close>. \<open>getRules\<close> never fails for \<open>d\<close>, leaves
  \<open>packageRules\<close> as it is, and the next call for \<open>d\<close> returns the same without
  looking at the file system (\<open>E'\<close> is any environment).
\<close>

theorem absent_rules_file_caches_inherited:
  assumes "\<not> Stat E (Join E d (rulesFile E))"
  shows "localRules E s d = (s\<lparr>loaderCalls := loaderCalls s @ [d]\<rparr>, Inr [])
    \<and> (realizedRules s d = None \<longrightarrow>
          getRules E keys s d =
            (s\<lparr>loaderCalls := loaderCalls s @ [d],
               realizedRules := (realizedRules s)
                 (d \<mapsto> (case packageRules s ''.'' of
                            Some rootRules \<Rightarrow> if d \<noteq> ''.'' then rootRules else []
                          | None \<Rightarrow> [])
                         @ inheritLoop (packageRules s) d keys [])\<rparr>,
             Inr ((case packageRules s ''.'' of
                     Some rootRules \<Rightarrow> if d \<noteq> ''.'' then rootRules else []
                   | None \<Rightarrow> [])
                  @ inheritLoop (packageRules s) d keys [])))
    \<and> (realizedRules s d = None \<and> (packageRules s ''.'' = None \<or> d = ''.'')
          \<and> (\<forall>K \<in> dom (packageRules s). \<not> (\<exists>t. d = K @ t \<and> t \<noteq> [])) \<longrightarrow>
          getRules E keys s d =
            (s\<lparr>loaderCalls := loaderCalls s @ [d], realizedRules := (realizedRules s)(d \<mapsto> [])\<rparr>, Inr []))
    \<and> (\<exists>s' rules. getRules E keys s d = (s', Inr rules)
          \<and> packageRules s' = packageRules s
          \<and> realizedRules s' d = Some rules
          \<and> getRules E' keys' s' d = (s', Inr rules))"
proof (intro conjI impI)
  show "localRules E s d = (s\<lparr>loaderCalls := loaderCalls s @ [d]\<rparr>, Inr [])"
    using assms by (rule localRules_absent)
next
  assume "realizedRules s d = None"
  then show "getRules E keys s d =
            (s\<lparr>loaderCalls := loaderCalls s @ [d],
               realizedRules := (realizedRules s)
                 (d \<mapsto> (case packageRules s ''.'' of
                            Some rootRules \<Rightarrow> if d \<noteq> ''.'' then rootRules else []
                          | None \<Rightarrow> [])
                         @ inheritLoop (packageRules s) d keys [])\<rparr>,
             Inr ((case packageRules s ''.'' of
                     Some rootRules \<Rightarrow> if d \<noteq> ''.'' then rootRules else []
                   | None \<Rightarrow> [])
                  @ inheritLoop (packageRules s) d keys []))"
    using assms by (simp add: getRules_def discoverRules_absent)
next
  assume a: "realizedRules s d = None \<and> (packageRules s ''.'' = None \<or> d = ''.'')
          \<and> (\<forall>K \<in> dom (packageRules s). \<not> (\<exists>t. d = K @ t \<and> t \<noteq> []))"
  then have "inheritLoop (packageRules s) d keys [] = []" by (simp add: inheritLoop_nothing)
  with a show "getRules E keys s d =
            (s\<lparr>loaderCalls := loaderCalls s @ [d], realizedRules := (realizedRules s)(d \<mapsto> [])\<rparr>, Inr [])"
    using assms by (auto simp: getRules_def discoverRules_absent split: option.splits)
next
  obtain s' rules where g: "getRules E keys s d = (s', Inr rules)"
    using getRules_absent [OF assms] by blast
  have p: "packageRules s' = packageRules s"
  proof (cases "realizedRules s d")
    case None
    with g assms show ?thesis by (auto simp: getRules_def discoverRules_absent)
  next
    case (Some a)
    with g show ?thesis by (simp add: getRules_def)
  qed
  from g have "realizedRules s' d = Some rules" by (rule getRules_stored)
  moreover from g have "getRules E' keys' s' d = (s', Inr rules)" by (rule getRules_again)
  ultimately show "\<exists>s' rules. getRules E keys s d = (s', Inr rules)
          \<and> packageRules s' = packageRules s
          \<and> realizedRules s' d = Some rules
          \<and> getRules E' keys' s' d = (s', Inr rules)"
    using g p by blast
qed

text \<open>
  \<open>a\<close> has no rules file. After the root has been resolved the rule of the root is what
  is stored for \<open>a\<close>; from the empty maps the empty sequence is stored, and the second
  call, made in an environment where every file exists and none can be read, returns it.
\<close>

theorem absent_rules_file_caches_inherited_witness:
  "localRules exampleEnv rootState ''a'' = (rootState\<lparr>loaderCalls := [''.'', ''a'']\<rparr>, Inr [])
   \<and> getRules exampleEnv [''.''] rootState ''a''
       = (rootState\<lparr>loaderCalls := [''.'', ''a''],
            realizedRules := (realizedRules rootState)(''a'' \<mapsto> [todoRule\<lparr>File := ''PROFANITY''\<rparr>])\<rparr>,
          Inr [todoRule\<lparr>File := ''PROFANITY''\<rparr>])
   \<and> getRules exampleEnv [] initState ''a''
       = (initState\<lparr>loaderCalls := [''a''], realizedRules := [''a'' \<mapsto> []]\<rparr>, Inr [])
   \<and> getRules (exampleEnv\<lparr>Stat := \<lambda>p. True, ReadFile := \<lambda>p. Inl (ExtError ''gone'')\<rparr>) []
        (initState\<lparr>loaderCalls := [''a''], realizedRules := [''a'' \<mapsto> []]\<rparr>) ''a''
       = (initState\<lparr>loaderCalls := [''a''], realizedRules := [''a'' \<mapsto> []]\<rparr>, Inr [])"
proof -
  let ?E' = "exampleEnv\<lparr>Stat := \<lambda>p. True, ReadFile := \<lambda>p. Inl (ExtError ''gone'')\<rparr>"
  let ?S = "initState\<lparr>loaderCalls := [''a''], realizedRules := [''a'' \<mapsto> []]\<rparr>"
  have a: "\<not> Stat exampleEnv (Join exampleEnv ''a'' (rulesFile exampleEnv))"
    by (simp add: example_defs)
  have e: "realizedRules initState ''a'' = None \<and> (packageRules initState ''.'' = None \<or> ''a'' = ''.'')
          \<and> (\<forall>K \<in> dom (packageRules initState). \<not> (\<exists>t. ''a'' = K @ t \<and> t \<noteq> []))"
    by (simp add: initState_def)
  have r: "realizedRules rootState ''a'' = None" by (simp add: rootState_def)
  note T = absent_rules_file_caches_inherited [OF a, of initState "[]" ?E' "[]"]
  note R = absent_rules_file_caches_inherited [OF a, of rootState "[''.'']" ?E' "[]"]
  from R have t0: "localRules exampleEnv rootState ''a'' = (rootState\<lparr>loaderCalls := [''.'', ''a'']\<rparr>, Inr [])"
    by (simp add: rootState_def)
  from R r have t1: "getRules exampleEnv [''.''] rootState ''a''
       = (rootState\<lparr>loaderCalls := [''.'', ''a''],
            realizedRules := (realizedRules rootState)(''a'' \<mapsto> [todoRule\<lparr>File := ''PROFANITY''\<rparr>])\<rparr>,
          Inr [todoRule\<lparr>File := ''PROFANITY''\<rparr>])"
    by (simp add: rootState_def strings_HasPrefix_def)
  from T e have t3: "getRules exampleEnv [] initState ''a'' = (?S, Inr [])"
    by (simp add: initState_def)
  from T obtain s' rules where g: "getRules exampleEnv [] initState ''a'' = (s', Inr rules)"
    and again: "getRules ?E' [] s' ''a'' = (s', Inr rules)"
    by blast
  from g t3 have "s' = ?S" and "rules = []" by simp_all
  with again have t2: "getRules ?E' [] ?S ''a'' = (?S, Inr [])" by simp
  from t0 t1 t3 t2 show ?thesis by blast
qed

text \<open>
  The claim as the specification states it fails: the loader records nothing for \<open>a\<close>
  (\<open>packageRules\<close> has no entry for it, before and after), and what is cached for
  \<open>a\<close> is not an empty result but the rule inherited from the root.
\<close>

theorem loader_records_nothing_counterexample:
  "getRules exampleEnv [''.''] initState ''.'' = (rootState, Inr [todoRule\<lparr>File := ''PROFANITY''\<rparr>])
   \<and> \<not> Stat exampleEnv (Join exampleEnv ''a'' (rulesFile exampleEnv))
   \<and> snd (localRules exampleEnv rootState ''a'') = Inr []
   \<and> packageRules (fst (localRules exampleEnv rootState ''a'')) ''a'' = None
   \<and> realizedRules (fst (localRules exampleEnv rootState ''a'')) ''a'' = None
   \<and> packageRules (fst (getRules exampleEnv [''.''] rootState ''a'')) ''a'' = None
   \<and> realizedRules (fst (getRules exampleEnv [''.''] rootState ''a'')) ''a''
       = Some [todoRule\<lparr>File := ''PROFANITY''\<rparr>]"
  by (simp add: example_defs run_defs)

lemma localRules_realized [simp]: "realizedRules (fst (localRules E s d)) = realizedRules s"
  by (simp add: localRules_def Let_def split: sum.splits)

lemma localRules_calls [simp]: "loaderCalls (fst (localRules E s d)) = loaderCalls s @ [d]"
  by (simp add: localRules_def Let_def split: sum.splits)

lemma getRules_miss:
  assumes "realizedRules s d = None" and "getRules E keys s d = (s1, res)"
  shows "loaderCalls s1 = loaderCalls s @ [d]
     \<and> realizedRules s1 = (case res of Inl err \<Rightarrow> realizedRules s | Inr rules \<Rightarrow> (realizedRules s)(d \<mapsto> rules))"
proof (cases "discoverRules E keys s d")
  case (Pair s0 r0)
  then have s0: "s0 = fst (localRules E s d)" using discoverRules_state [of E keys s d] by simp
  show ?thesis
  proof (cases r0)
    case (Inl err)
    with Pair assms s0 show ?thesis by (auto simp: getRules_def)
  next
    case (Inr rules)
    with Pair assms s0 show ?thesis by (auto simp: getRules_def)
  qed
qed

lemma getRules_distinct:
  assumes "distinct (loaderCalls s)" and "set (loaderCalls s) \<subseteq> dom (realizedRules s)"
    and "getRules E keys s d = (s1, res)"
  shows "distinct (loaderCalls s1)
     \<and> ((\<exists>rules. res = Inr rules) \<longrightarrow> set (loaderCalls s1) \<subseteq> dom (realizedRules s1))"
proof (cases "realizedRules s d")
  case None
  then have "d \<notin> set (loaderCalls s)" using assms(2) by auto
  moreover note getRules_miss [OF None assms(3)]
  ultimately show ?thesis using assms(1,2) by auto
next
  case (Some rules)
  with assms show ?thesis by (simp add: getRules_def)
qed

lemma walkFn_state:
  assumes "walkFn E s en = (s1, res)"
  shows "s1 = s
     \<or> (\<not> entryIsDir en
         \<and> (\<exists>r0. getRules E (entryKeys en) s (Dir E (entryPath en)) = (s1, r0)
                \<and> (res = Inr None \<longrightarrow> (\<exists>rules. r0 = Inr rules))))"
proof (cases "getRules E (entryKeys en) s (Dir E (entryPath en))")
  case (Pair s0 r0)
  show ?thesis
  proof (cases r0)
    case (Inl err)
    with Pair assms show ?thesis
      by (auto simp: walkFn_def Let_def split: option.splits if_splits sum.splits)
  next
    case (Inr rules)
    with Pair assms show ?thesis
      by (auto simp: walkFn_def Let_def split: option.splits if_splits sum.splits)
  qed
qed

lemma walkFn_dir: "entryIsDir en \<Longrightarrow> fst (walkFn E s en) = s"
  by (simp add: walkFn_def Let_def split: option.splits)

lemma walkFn_distinct:
  assumes "distinct (loaderCalls s)" and "set (loaderCalls s) \<subseteq> dom (realizedRules s)"
    and "walkFn E s en = (s1, res)"
  shows "distinct (loaderCalls s1)
     \<and> (res = Inr None \<longrightarrow> set (loaderCalls s1) \<subseteq> dom (realizedRules s1))"
proof (cases "s1 = s")
  case True
  with assms show ?thesis by simp
next
  case False
  then obtain r0 where g: "getRules E (entryKeys en) s (Dir E (entryPath en)) = (s1, r0)"
    and r: "res = Inr None \<longrightarrow> (\<exists>rules. r0 = Inr rules)"
    using walkFn_state [OF assms(3)] by auto
  from getRules_distinct [OF assms(1,2) g] r show ?thesis by auto
qed

lemma walk_distinct:
  "distinct (loaderCalls s) \<Longrightarrow> set (loaderCalls s) \<subseteq> dom (realizedRules s) \<Longrightarrow>
   distinct (loaderCalls (fst (walk E s entries)))"
proof (induction entries arbitrary: s rule: length_induct)
  case (1 entries)
  show ?case
  proof (cases entries)
    case Nil
    with "1.prems" show ?thesis by simp
  next
    case (Cons en rest)
    obtain s1 res where w: "walkFn E s en = (s1, res)" by (cases "walkFn E s en")
    note f = walkFn_distinct [OF "1.prems" w]
    show ?thesis
    proof (cases res)
      case (Inl p)
      with w f Cons show ?thesis by simp
    next
      case (Inr eo)
      show ?thesis
      proof (cases eo)
        case None
        have "distinct (loaderCalls (fst (walk E s1 rest)))"
          using "1.IH" Cons f Inr None by simp
        with None Inr w Cons show ?thesis by simp
      next
        case (Some err)
        show ?thesis
        proof (cases "err = SkipDir \<and> entryIsDir en")
          case True
          then have "s1 = s" using walkFn_dir [of en E s] w by simp
          let ?rest = "filter (\<lambda>e. \<not> strings_HasPrefix (entryPath e) (entryPath en @ ''/'')) rest"
          have "length ?rest < length entries" using Cons by (simp add: le_imp_less_Suc)
          then have "distinct (loaderCalls (fst (walk E s ?rest)))"
            using "1.IH" "1.prems" by blast
          with True Some Inr w Cons \<open>s1 = s\<close> show ?thesis by simp
        next
          case False
          with Some Inr w f Cons show ?thesis by auto
        qed
      qed
    qed
  qed
qed

lemma getRules_keeps:
  assumes "realizedRules s d = Some rules" and "getRules E keys s d' = (s1, res)"
  shows "realizedRules s1 d = Some rules"
proof (cases "realizedRules s d'")
  case None
  then have "d' \<noteq> d" using assms(1) by auto
  with getRules_miss [OF None assms(2)] assms(1) show ?thesis by (cases res) auto
next
  case (Some a)
  with assms show ?thesis by (simp add: getRules_def)
qed

lemma walkFn_keeps:
  assumes "realizedRules s d = Some rules" and "walkFn E s en = (s1, res)"
  shows "realizedRules s1 d = Some rules"
  using walkFn_state [OF assms(2)] assms(1) getRules_keeps [OF assms(1)] by auto

lemma walk_keeps:
  "realizedRules s d = Some rules \<Longrightarrow> realizedRules (fst (walk E s entries)) d = Some rules"
proof (induction entries arbitrary: s rule: length_induct)
  case (1 entries)
  show ?case
  proof (cases entries)
    case Nil
    with "1.prems" show ?thesis by simp
  next
    case (Cons en rest)
    obtain s1 res where w: "walkFn E s en = (s1, res)" by (cases "walkFn E s en")
    note k = walkFn_keeps [OF "1.prems" w]
    show ?thesis
    proof (cases res)
      case (Inl p)
      with w k Cons show ?thesis by simp
    next
      case (Inr eo)
      show ?thesis
      proof (cases eo)
        case None
        have "realizedRules (fst (walk E s1 rest)) d = Some rules"
          using "1.IH" Cons k by simp
        with None Inr w Cons show ?thesis by simp
      next
        case (Some err)
        show ?thesis
        proof (cases "err = SkipDir \<and> entryIsDir en")
          case True
          let ?rest = "filter (\<lambda>e. \<not> strings_HasPrefix (entryPath e) (entryPath en @ ''/'')) rest"
          have "length ?rest < length entries" using Cons by (simp add: le_imp_less_Suc)
          then have "realizedRules (fst (walk E s1 ?rest)) d = Some rules"
            using "1.IH" k by blast
          with True Some Inr w Cons show ?thesis by simp
        next
          case False
          with Some Inr w k Cons show ?thesis by auto
        qed
      qed
    qed
  qed
qed

text \<open>
  Claim C3. Once \<open>getRules\<close> has returned \<open>rules\<close> for \<open>d\<close>, a second call
  for \<open>d\<close> returns \<open>rules\<close> again and changes nothing, neither the maps nor the
  list of the calls of \<open>localRules\<close>, in any environment \<open>E'\<close> and for any order of
  the keys; and so does a call after the walk has gone on through any further entries. In
  a whole walk from the empty maps, \<open>localRules\<close>, which \<open>discoverRules\<close> calls
  first, is called at most once for a directory.
\<close>

theorem getRules_memoized:
  "(getRules E keys s d = (s1, Inr rules) \<longrightarrow>
      getRules E' keys' s1 d = (s1, Inr rules)
    \<and> getRules E' keys' (fst (walk E s1 later)) d = (fst (walk E s1 later), Inr rules))
   \<and> distinct (loaderCalls (fst (walk E0 initState entries)))"
proof (intro conjI impI)
  assume g: "getRules E keys s d = (s1, Inr rules)"
  then show "getRules E' keys' s1 d = (s1, Inr rules)" by (rule getRules_again)
  from g have "realizedRules s1 d = Some rules" by (rule getRules_stored)
  then have "realizedRules (fst (walk E s1 later)) d = Some rules" by (rule walk_keeps)
  then show "getRules E' keys' (fst (walk E s1 later)) d = (fst (walk E s1 later), Inr rules)"
    by (rule getRules_hit)
next
  show "distinct (loaderCalls (fst (walk E0 initState entries)))"
    using walk_distinct [of initState E0 entries] by (simp add: initState_def)
qed

text \<open>
  After the call for \<open>foo\<close>, a call for \<open>foo\<close> where no rules file can be found
  any more still returns the rule of \<open>foo\<close>, also after \<open>foobar/x.go\<close> has been
  visited.
\<close>

theorem getRules_memoized_witness:
  "getRules exampleEnv [''foo''] initState ''foo'' = (fooState, Inr [licenseRule\<lparr>File := ''foo/PROFANITY''\<rparr>])
   \<and> getRules (exampleEnv\<lparr>Stat := \<lambda>p. False\<rparr>) [''foo''] fooState ''foo''
       = (fooState, Inr [licenseRule\<lparr>File := ''foo/PROFANITY''\<rparr>])
   \<and> snd (getRules (exampleEnv\<lparr>Stat := \<lambda>p. False\<rparr>) [''foo'']
            (fst (walk exampleEnv fooState [fileEntry ''foobar/x.go'' [''foo'']])) ''foo'')
       = Inr [licenseRule\<lparr>File := ''foo/PROFANITY''\<rparr>]
   \<and> loaderCalls (fst (walk exampleEnv fooState [fileEntry ''foobar/x.go'' [''foo'']])) = [''foo'', ''foobar'']"
proof -
  have g: "getRules exampleEnv [''foo''] initState ''foo'' = (fooState, Inr [licenseRule\<lparr>File := ''foo/PROFANITY''\<rparr>])"
    by (simp add: example_defs run_defs)
  note T = getRules_memoized [of exampleEnv "[''foo'']" initState "''foo''" fooState
      "[licenseRule\<lparr>File := ''foo/PROFANITY''\<rparr>]" "exampleEnv\<lparr>Stat := \<lambda>p. False\<rparr>" "[''foo'']"
      "[fileEntry ''foobar/x.go'' [''foo'']]"]
  from T g have c: "getRules (exampleEnv\<lparr>Stat := \<lambda>p. False\<rparr>) [''foo''] fooState ''foo''
       = (fooState, Inr [licenseRule\<lparr>File := ''foo/PROFANITY''\<rparr>])
    \<and> getRules (exampleEnv\<lparr>Stat := \<lambda>p. False\<rparr>) [''foo'']
            (fst (walk exampleEnv fooState [fileEntry ''foobar/x.go'' [''foo'']])) ''foo''
       = (fst (walk exampleEnv fooState [fileEntry ''foobar/x.go'' [''foo'']]),
          Inr [licenseRule\<lparr>File := ''foo/PROFANITY''\<rparr>])"
    by blast
  have l: "loaderCalls (fst (walk exampleEnv fooState [fileEntry ''foobar/x.go'' [''foo'']])) = [''foo'', ''foobar'']"
    by (simp add: example_defs run_defs)
  from g c l show ?thesis by simp
qed

section \<open>The glob filter: what it answers\<close>







section \<open>The loop: order, filters and the first violation\<close>

lemma ruleLoop_passes:
  "\<forall>q \<in> set pre. skipsRule E q file \<or> (appliesRule E q file \<and> Apply E q contents = Inr None) \<Longrightarrow>
   ruleLoop E (pre @ rest) file contents = ruleLoop E rest file contents"
proof (induction pre)
  case Nil
  then show ?case by simp
next
  case (Cons q pre)
  then have rest: "ruleLoop E (pre @ rest) file contents = ruleLoop E rest file contents" by simp
  from Cons.prems have "skipsRule E q file \<or> (appliesRule E q file \<and> Apply E q contents = Inr None)"
    by simp
  then have "ruleLoop E (q # pre @ rest) file contents = ruleLoop E (pre @ rest) file contents"
    by (auto simp: skipsRule_def appliesRule_def ShouldInclude_def ShouldExclude_def split: if_splits)
  with rest show ?case by simp
qed

lemma ruleLoop_violation:
  "appliesRule E r file \<Longrightarrow> Apply E r contents = Inr (Some err) \<Longrightarrow>
   ruleLoop E (r # post) file contents = Inr (Some (Errorf (violationMessage file err r)))"
  by (simp add: appliesRule_def)




lemma Apply_error_text:
  assumes "Apply E r contents = Inr (Some err)"
  shows "\<exists>m. err = Errorf m"
proof (cases "MustCompile E (Regex r)")
  case None
  with assms show ?thesis
    by (auto simp: Apply_def ContainsRule_def NotContainsRule_def RegexRule_def split: if_splits)
next
  case (Some re)
  with assms show ?thesis
    by (auto simp: Apply_def ContainsRule_def NotContainsRule_def RegexRule_def split: if_splits)
qed

text \<open>
  Claim C5. Let every rule of \<open>pre\<close> be skipped by its filters or be applied without a
  violation, and let the next rule \<open>r\<close> pass its filters and fail on the contents with
  the error \<open>err\<close>. Then \<open>err\<close> is an error \<open>Errorf m\<close> of \<open>Apply\<close>, and the
  loop returns the report of this violation: five lines, each after a line feed and a tab,
  with the file's path and \<open>failed\<close> and the text \<open>m\<close>, then the message of
  \<open>r\<close>, its rules file, its include filter and its exclude filter, the labels between
  the escape sequences of the colours. This is so whatever the rules \<open>post\<close> after
  \<open>r\<close> are: they are not looked at. A skipped rule is not applied (nothing is asked of
  \<open>Apply\<close> on it).
\<close>

theorem first_violation_stops:
  assumes "\<forall>q \<in> set pre. skipsRule E q file \<or> (appliesRule E q file \<and> Apply E q contents = Inr None)"
    and "appliesRule E r file" and "Apply E r contents = Inr (Some err)"
  shows "\<exists>m. err = Errorf m
     \<and> ruleLoop E (pre @ r # post) file contents =
         Inr (Some (Errorf
           ([CHR 0x0A, CHR 0x09, CHR 0x1B] @ ''[97m'' @ file @ [CHR 0x1B] @ ''[0m ''
              @ [CHR 0x1B] @ ''[31mfailed'' @ [CHR 0x1B] @ ''[0m: '' @ m
            @ [CHR 0x0A, CHR 0x09, CHR 0x1B] @ ''[97mmessage'' @ [CHR 0x1B] @ ''[0m: '' @ Message r
            @ [CHR 0x0A, CHR 0x09, CHR 0x1B] @ ''[97mrules file'' @ [CHR 0x1B] @ ''[0m: '' @ File r
            @ [CHR 0x0A, CHR 0x09, CHR 0x1B] @ ''[97minclude'' @ [CHR 0x1B] @ ''[0m: '' @ Include r
            @ [CHR 0x0A, CHR 0x09, CHR 0x1B] @ ''[97mexclude'' @ [CHR 0x1B] @ ''[0m: '' @ Exclude r)))"
proof -
  obtain m where m: "err = Errorf m" using Apply_error_text [OF assms(3)] by blast
  have "ruleLoop E (pre @ r # post) file contents = ruleLoop E (r # post) file contents"
    using assms(1) by (rule ruleLoop_passes)
  also have "\<dots> = Inr (Some (Errorf (violationMessage file err r)))"
    using assms(2,3) by (rule ruleLoop_violation)
  finally have "ruleLoop E (pre @ r # post) file contents
      = Inr (Some (Errorf (violationMessage file (Errorf m) r)))"
    using m by simp
  then show ?thesis
    using m
    by (simp add: violationMessage_def ColorApply_def escaped_def ColorLightWhite_def ColorRed_def
          ColorReset_def)
qed

text \<open>
  Five rules on \<open>a/x.go\<close>: the first is skipped by its include filter, the second finds
  nothing, the third reports \<open>TODO\<close>. The fourth has nothing set and the fifth an
  expression that does not compile: neither is reached.
\<close>

theorem first_violation_stops_witness:
  \<open>ruleLoop exampleEnv
     [licenseRule\<lparr>Include := ''*.md''\<rparr>, todoRule\<lparr>Contains := ''FIXME''\<rparr>,
      todoRule\<lparr>File := ''PROFANITY'', Include := ''*.go'', Exclude := ''*.md''\<rparr>, unsetRule, badRegexRule]
     ''a/x.go'' ''// TODO: write it''
   = Inr (Some (Errorf
       ([CHR 0x0A, CHR 0x09, CHR 0x1B] @ ''[97ma/x.go'' @ [CHR 0x1B] @ ''[0m ''
          @ [CHR 0x1B] @ ''[31mfailed'' @ [CHR 0x1B] @ ''[0m: contains: "TODO"''
        @ [CHR 0x0A, CHR 0x09, CHR 0x1B] @ ''[97mmessage'' @ [CHR 0x1B] @ ''[0m: no TODOs''
        @ [CHR 0x0A, CHR 0x09, CHR 0x1B] @ ''[97mrules file'' @ [CHR 0x1B] @ ''[0m: PROFANITY''
        @ [CHR 0x0A, CHR 0x09, CHR 0x1B] @ ''[97minclude'' @ [CHR 0x1B] @ ''[0m: *.go''
        @ [CHR 0x0A, CHR 0x09, CHR 0x1B] @ ''[97mexclude'' @ [CHR 0x1B] @ ''[0m: *.md'')))\<close>
proof -
  let ?r = "todoRule\<lparr>File := ''PROFANITY'', Include := ''*.go'', Exclude := ''*.md''\<rparr>"
  have pre: "\<forall>q \<in> set [licenseRule\<lparr>Include := ''*.md''\<rparr>, todoRule\<lparr>Contains := ''FIXME''\<rparr>].
      skipsRule exampleEnv q ''a/x.go''
      \<or> (appliesRule exampleEnv q ''a/x.go'' \<and> Apply exampleEnv q ''// TODO: write it'' = Inr None)"
    by (simp add: skipsRule_def appliesRule_def example_defs run_defs)
  have app: "appliesRule exampleEnv ?r ''a/x.go''"
    by (simp add: appliesRule_def example_defs run_defs)
  have viol: \<open>Apply exampleEnv ?r ''// TODO: write it'' = Inr (Some (Errorf ''contains: "TODO"''))\<close>
    by (simp add: example_defs run_defs)
  from first_violation_stops [OF pre app viol, of "[unsetRule, badRegexRule]"]
  show ?thesis by (simp add: todoRule_def)
qed

section \<open>Malformed patterns\<close>



section \<open>Applying a rule: the order of the checks\<close>

lemma Apply_unset:
  "Contains r = [] \<Longrightarrow> NotContains r = [] \<Longrightarrow> Regex r = [] \<Longrightarrow>
   Apply E r contents = Inr (Some (Errorf ''no rule set''))"
  by (simp add: Apply_def)

lemma ShouldInclude_File [simp]: "ShouldInclude E (r\<lparr>File := p\<rparr>) file = ShouldInclude E r file"
  by (simp add: ShouldInclude_def)

lemma ShouldExclude_File [simp]: "ShouldExclude E (r\<lparr>File := p\<rparr>) file = ShouldExclude E r file"
  by (simp add: ShouldExclude_def)

text \<open>
  Claim C4. \<open>Apply\<close> looks at \<open>Contains\<close>, then \<open>NotContains\<close>, then \<open>Regex\<close>, and
  runs the first one that is set. A rule \<open>rc\<close> with \<open>Contains\<close> set fails exactly when
  the contents hold that text somewhere, whatever its other fields and whatever the
  regexp library would say (\<open>E'\<close> is any environment): with both \<open>Contains\<close> and
  \<open>Regex\<close> set, only \<open>Contains\<close> counts. A rule \<open>rn\<close> with only \<open>NotContains\<close>
  set fails exactly when the contents do not hold that text. A rule \<open>rx\<close> with only
  \<open>Regex\<close> set, whose expression compiles to \<open>re\<close>, fails exactly when \<open>re\<close> matches
  the contents.
\<close>

theorem Apply_dispatch:
  assumes "Contains rc \<noteq> []"
    and "Contains rn = []" and "NotContains rn \<noteq> []"
    and "Contains rx = []" and "NotContains rx = []" and "Regex rx \<noteq> []"
    and "MustCompile E (Regex rx) = Some re"
  shows \<open>Apply E' rc contents =
           Inr (if (\<exists>u v. contents = u @ Contains rc @ v)
                then Some (Errorf (''contains: "'' @ Contains rc @ ''"'')) else None)
       \<and> Apply E' rn contents =
           Inr (if (\<exists>u v. contents = u @ NotContains rn @ v)
                then None else Some (Errorf (''not contains: "'' @ NotContains rn @ ''"'')))
       \<and> Apply E rx contents =
           Inr (if re contents
                then Some (Errorf (''regexp match: "'' @ Regex rx @ ''"'')) else None)\<close>
  using assms
  by (simp add: Apply_def ContainsRule_def NotContainsRule_def RegexRule_def strings_Contains_iff)

text \<open>
  On the contents \<open>a TODO\<close>: a rule with \<open>Contains = TODO\<close> and a \<open>Regex\<close> that
  does not even compile fails on \<open>Contains\<close>; the rule \<open>NotContains = LICENSE\<close> fails;
  the rule \<open>Regex = FIXME\<close> passes.
\<close>

theorem Apply_dispatch_witness:
  \<open>Apply exampleEnv (todoRule\<lparr>Regex := ''(''\<rparr>) ''a TODO'' = Inr (Some (Errorf ''contains: "TODO"''))
   \<and> Apply exampleEnv licenseRule ''a TODO'' = Inr (Some (Errorf ''not contains: "LICENSE"''))
   \<and> Apply exampleEnv (todoRule\<lparr>Contains := [], Regex := ''FIXME''\<rparr>) ''a TODO'' = Inr None\<close>
proof -
  have m: "MustCompile exampleEnv (Regex (todoRule\<lparr>Contains := [], Regex := ''FIXME''\<rparr>))
      = Some (\<lambda>contents. strings_Contains contents ''FIXME'')"
    by (simp add: exampleEnv_def exampleMustCompile_def)
  have th: \<open>Apply exampleEnv (todoRule\<lparr>Regex := ''(''\<rparr>) ''a TODO'' =
           Inr (if strings_Contains ''a TODO'' (Contains (todoRule\<lparr>Regex := ''(''\<rparr>))
                then Some (Errorf (''contains: "'' @ Contains (todoRule\<lparr>Regex := ''(''\<rparr>) @ ''"''))
                else None)
       \<and> Apply exampleEnv licenseRule ''a TODO'' =
           Inr (if strings_Contains ''a TODO'' (NotContains licenseRule)
                then None else Some (Errorf (''not contains: "'' @ NotContains licenseRule @ ''"'')))
       \<and> Apply exampleEnv (todoRule\<lparr>Contains := [], Regex := ''FIXME''\<rparr>) ''a TODO'' =
           Inr (if strings_Contains ''a TODO'' ''FIXME''
                then Some (Errorf (''regexp match: "''
                        @ Regex (todoRule\<lparr>Contains := [], Regex := ''FIXME''\<rparr>) @ ''"''))
                else None)\<close>
    using Apply_dispatch [of "todoRule\<lparr>Regex := ''(''\<rparr>" licenseRule
        "todoRule\<lparr>Contains := [], Regex := ''FIXME''\<rparr>" exampleEnv
        "\<lambda>contents. strings_Contains contents ''FIXME''" exampleEnv "''a TODO''", OF _ _ _ _ _ _ m]
    unfolding strings_Contains_iff [symmetric]
    by (simp add: todoRule_def licenseRule_def)
  show ?thesis
    using th by (simp add: todoRule_def licenseRule_def strings_HasPrefix_def)
qed

text \<open>
  Claim C7. A rule with none of \<open>Contains\<close>, \<open>NotContains\<close> and \<open>Regex\<close> set is
  taken as it is when its rules file is read (\<open>deserializeRules\<close> only stamps the file
  name on it), and fails when it is applied: \<open>Apply\<close> returns the error
  \<open>no rule set\<close>, and the loop, on reaching the rule, returns it as it returns any
  violation.
\<close>

theorem unset_rule_fails_when_applied:
  assumes "Contains r = []" and "NotContains r = []" and "Regex r = []"
    and "ReadFile E p = Inr txt" and "Unmarshal E txt = Inr fileRules" and "r \<in> set fileRules"
    and "ShouldInclude E r file = Inr True" and "ShouldExclude E r file = Inr False"
  shows "(\<exists>rules. deserializeRules E p = Inr rules \<and> r\<lparr>File := p\<rparr> \<in> set rules)
    \<and> Apply E (r\<lparr>File := p\<rparr>) contents = Inr (Some (Errorf ''no rule set''))
    \<and> ruleLoop E (r\<lparr>File := p\<rparr> # rest) file contents
        = Inr (Some (Errorf (violationMessage file (Errorf ''no rule set'') (r\<lparr>File := p\<rparr>))))"
proof -
  have a: "Apply E (r\<lparr>File := p\<rparr>) contents = Inr (Some (Errorf ''no rule set''))"
    using assms(1-3) by (simp add: Apply_unset)
  have d: "deserializeRules E p = Inr (map (\<lambda>fileRule. fileRule\<lparr>File := p\<rparr>) fileRules)"
    using assms(4,5) by (simp add: deserializeRules_def)
  have "r\<lparr>File := p\<rparr> \<in> set (map (\<lambda>fileRule. fileRule\<lparr>File := p\<rparr>) fileRules)"
    using assms(6) by (simp add: image_iff) blast
  with d a assms(7,8) show ?thesis by simp
qed

text \<open>
  A rules file that holds a rule with nothing set is read without error; the rule, first in
  the loop, is reported and the rule after it is not reached.
\<close>

theorem unset_rule_fails_when_applied_witness:
  "(\<exists>rules. deserializeRules (exampleEnv\<lparr>Unmarshal := \<lambda>txt. Inr [unsetRule]\<rparr>) ''PROFANITY'' = Inr rules
       \<and> unsetRule\<lparr>File := ''PROFANITY''\<rparr> \<in> set rules)
   \<and> Apply (exampleEnv\<lparr>Unmarshal := \<lambda>txt. Inr [unsetRule]\<rparr>) (unsetRule\<lparr>File := ''PROFANITY''\<rparr>)
        ''package x''
        = Inr (Some (Errorf ''no rule set''))
   \<and> ruleLoop (exampleEnv\<lparr>Unmarshal := \<lambda>txt. Inr [unsetRule]\<rparr>)
        [unsetRule\<lparr>File := ''PROFANITY''\<rparr>, todoRule] ''x.go'' ''package x''
        = Inr (Some (Errorf (violationMessage ''x.go'' (Errorf ''no rule set'')
                               (unsetRule\<lparr>File := ''PROFANITY''\<rparr>))))"
proof -
  let ?E = "exampleEnv\<lparr>Unmarshal := \<lambda>txt. Inr [unsetRule]\<rparr>"
  have r: "ReadFile ?E ''PROFANITY'' = Inr rootRulesText"
    by (simp add: exampleEnv_def exampleReadFile_def)
  have u: "Unmarshal ?E rootRulesText = Inr [unsetRule]" by simp
  have i: "ShouldInclude ?E unsetRule ''x.go'' = Inr True"
    by (simp add: ShouldInclude_def unsetRule_def)
  have e: "ShouldExclude ?E unsetRule ''x.go'' = Inr False"
    by (simp add: ShouldExclude_def unsetRule_def)
  show ?thesis
    using unset_rule_fails_when_applied [of unsetRule ?E "''PROFANITY''" rootRulesText "[unsetRule]"
        "''x.go''" "''package x''" "[todoRule]", OF _ _ _ r u _ i e]
    by (simp add: unsetRule_def)
qed

text \<open>
  Claim C10. With \<open>Include\<close> empty \<open>ShouldInclude\<close> is true, and with \<open>Exclude\<close>
  empty \<open>ShouldExclude\<close> is false, for every file and with no error, whatever
  \<open>filepath.Match\<close> would answer.
\<close>

theorem empty_filter_defaults:
  assumes "Include r = []" and "Exclude q = []"
  shows "ShouldInclude E r file = Inr True \<and> ShouldExclude E q file = Inr False"
  using assms by (simp add: ShouldInclude_def ShouldExclude_def)

text \<open>Here \<open>filepath.Match\<close> fails on every pattern, and is not asked.\<close>

theorem empty_filter_defaults_witness:
  "ShouldInclude (exampleEnv\<lparr>Match := \<lambda>p n. Inl ErrBadPattern\<rparr>) todoRule ''a/x.go'' = Inr True
   \<and> ShouldExclude (exampleEnv\<lparr>Match := \<lambda>p n. Inl ErrBadPattern\<rparr>) todoRule ''a/x.go'' = Inr False"
  using empty_filter_defaults [of todoRule todoRule "exampleEnv\<lparr>Match := \<lambda>p n. Inl ErrBadPattern\<rparr>" "''a/x.go''"]
  by (simp add: todoRule_def)

end
